theory Spec2Isabelle
  imports Complex_Main
begin

section \<open>Module code supplied by the consumer\<close>

text \<open>
  The application container (class \<^verbatim>\<open>Application\<close>) runs code it does not own: the
  constructor of a module class (\<^verbatim>\<open>new module(...args)\<close>) and the lifecycle entry
  point of a module instance (\<^verbatim>\<open>m.default()\<close>). Both are parameters of the model.
  They read and write an ambient program state \<open>'w\<close> (everything outside the container:
  the fields of the module objects, \<^verbatim>\<open>Application.sharedContext\<close>, sockets, ...), and
  either of them may throw.

  \<^item> \<open>'c\<close>: constructor references, \<open>'a\<close>: argument values (\<^verbatim>\<open>any\<close>),
    \<open>'e\<close>: thrown values, \<open>'m\<close>: references to module instances.
  \<^item> A constructor call returns the new instance (\<open>Inr\<close>) or throws (\<open>Inl\<close>).
  \<^item> An entry point call returns, throws synchronously, or hands back a promise that the
    container never awaits (\<open>Pending\<close>).

  The container's own two arrays are private fields, and the container hands no reference
  to itself to the modules. The model covers module code that does not call back into the
  container: the ambient state and the container are separate components of the machine
  state, and constructors and entry points change the ambient state only.
\<close>

datatype 'e outcome = Returned | Threw 'e | Pending

record ('c, 'a, 'e, 'm, 'w) runtime =
  construct :: "'c \<Rightarrow> 'a list \<Rightarrow> 'w \<Rightarrow> ('e + 'm) \<times> 'w"
  call_default :: "'m \<Rightarrow> 'w \<Rightarrow> 'e outcome \<times> 'w"

text \<open>
  What the container did is recorded in a trace: one event for each constructor call and one
  for each call of an entry point, in the order they were made.
\<close>

datatype ('c, 'a, 'm) event = New 'c "'a list" | Default 'm

fun defaults :: "('c, 'a, 'm) event list \<Rightarrow> 'm list" where
  "defaults [] = []"
| "defaults (New k args # tr) = defaults tr"
| "defaults (Default m # tr) = m # defaults tr"

section \<open>The application container\<close>

text \<open>
  \<^verbatim>\<open>
  export class Application {
    private initModules: IModule[] = [];
    private modules: IModule[] = [];
  \<close>
\<close>

record 'm Application =
  initModules :: "'m list"
  modules :: "'m list"

record ('c, 'a, 'm, 'w) machine =
  app :: "'m Application"
  world :: 'w
  trace :: "('c, 'a, 'm) event list"

definition Application_new :: "'m Application" where
  "Application_new = \<lparr>initModules = [], modules = []\<rparr>"

definition boot :: "'w \<Rightarrow> ('c, 'a, 'm, 'w) machine" where
  "boot w = \<lparr>app = Application_new, world = w, trace = []\<rparr>"

text \<open>The expression \<^verbatim>\<open>new module(...args)\<close>.\<close>

definition new_instance ::
  "('c, 'a, 'e, 'm, 'w) runtime \<Rightarrow> 'c \<Rightarrow> 'a list \<Rightarrow> ('c, 'a, 'm, 'w) machine
     \<Rightarrow> ('e + 'm) \<times> ('c, 'a, 'm, 'w) machine" where
  "new_instance rt k args s =
     (case construct rt k args (world s) of
        (r, w) \<Rightarrow> (r, s\<lparr>world := w, trace := trace s @ [New k args]\<rparr>))"

text \<open>The statement \<^verbatim>\<open>m.default();\<close>: the value returned is dropped.\<close>

definition invoke ::
  "('c, 'a, 'e, 'm, 'w) runtime \<Rightarrow> 'm \<Rightarrow> ('c, 'a, 'm, 'w) machine
     \<Rightarrow> ('e + unit) \<times> ('c, 'a, 'm, 'w) machine" where
  "invoke rt m s =
     (case call_default rt m (world s) of
        (Threw e, w) \<Rightarrow> (Inl e, s\<lparr>world := w, trace := trace s @ [Default m]\<rparr>)
      | (_, w) \<Rightarrow> (Inr (), s\<lparr>world := w, trace := trace s @ [Default m]\<rparr>))"

definition push_modules :: "'m \<Rightarrow> ('c, 'a, 'm, 'w) machine \<Rightarrow> ('c, 'a, 'm, 'w) machine" where
  "push_modules m s = s\<lparr>app := (app s)\<lparr>modules := modules (app s) @ [m]\<rparr>\<rparr>"

definition push_initModules :: "'m \<Rightarrow> ('c, 'a, 'm, 'w) machine \<Rightarrow> ('c, 'a, 'm, 'w) machine" where
  "push_initModules m s = s\<lparr>app := (app s)\<lparr>initModules := initModules (app s) @ [m]\<rparr>\<rparr>"

text \<open>
  \<^verbatim>\<open>
  public use(module, ...args): void {
    const m = new module(...args);
    this.modules.push(m);
  }
  \<close>
\<close>

definition use ::
  "('c, 'a, 'e, 'm, 'w) runtime \<Rightarrow> 'c \<Rightarrow> 'a list \<Rightarrow> ('c, 'a, 'm, 'w) machine
     \<Rightarrow> ('e + unit) \<times> ('c, 'a, 'm, 'w) machine" where
  "use rt k args s =
     (case new_instance rt k args s of
        (Inl e, s1) \<Rightarrow> (Inl e, s1)
      | (Inr m, s1) \<Rightarrow> (Inr (), push_modules m s1))"

text \<open>
  \<^verbatim>\<open>
  public set(module, ...args): void {
    const m = new module(...args);
    this.initModules.push(m);
    m.default();
  }
  \<close>
\<close>

definition set_app ::
  "('c, 'a, 'e, 'm, 'w) runtime \<Rightarrow> 'c \<Rightarrow> 'a list \<Rightarrow> ('c, 'a, 'm, 'w) machine
     \<Rightarrow> ('e + unit) \<times> ('c, 'a, 'm, 'w) machine" where
  "set_app rt k args s =
     (case new_instance rt k args s of
        (Inl e, s1) \<Rightarrow> (Inl e, s1)
      | (Inr m, s1) \<Rightarrow> invoke rt m (push_initModules m s1))"

text \<open>
  \<^verbatim>\<open>
  protected run(): void {
    for (const m of this.modules) {
      m.default();
    }
  }
  \<close>
  The loop stops at the first entry point that throws.
\<close>

fun run_loop ::
  "('c, 'a, 'e, 'm, 'w) runtime \<Rightarrow> 'm list \<Rightarrow> ('c, 'a, 'm, 'w) machine
     \<Rightarrow> ('e + unit) \<times> ('c, 'a, 'm, 'w) machine" where
  "run_loop rt [] s = (Inr (), s)"
| "run_loop rt (m # ms) s =
     (case invoke rt m s of
        (Inl e, s1) \<Rightarrow> (Inl e, s1)
      | (Inr u, s1) \<Rightarrow> run_loop rt ms s1)"

definition run ::
  "('c, 'a, 'e, 'm, 'w) runtime \<Rightarrow> ('c, 'a, 'm, 'w) machine
     \<Rightarrow> ('e + unit) \<times> ('c, 'a, 'm, 'w) machine" where
  "run rt s = run_loop rt (modules (app s)) s"

text \<open>
  \<^verbatim>\<open>
  protected exit(exitCode?: number): void {
    process.exit(exitCode ? exitCode : 0);
  }
  \<close>
  A number of the language is a finite value, \<^verbatim>\<open>NaN\<close> or one of the two infinities;
  a finite value is taken as a real number (negative zero is zero). \<open>None\<close> is the omitted
  argument (\<^verbatim>\<open>undefined\<close>). A number is falsy when it is zero or \<^verbatim>\<open>NaN\<close>.

  \<^verbatim>\<open>process.exit\<close> is not code of this repository, so \<open>exit\<close> takes it as a parameter.
\<close>

datatype number = Finite real | NaN | PosInfinity | NegInfinity

fun truthy_number :: "number \<Rightarrow> bool" where
  "truthy_number (Finite x) = (x \<noteq> 0)"
| "truthy_number NaN = False"
| "truthy_number PosInfinity = True"
| "truthy_number NegInfinity = True"

definition exit :: "(number \<Rightarrow> 'r) \<Rightarrow> number option \<Rightarrow> 'r" where
  "exit process_exit exitCode =
     process_exit (case exitCode of
                     None \<Rightarrow> Finite 0
                   | Some n \<Rightarrow> if truthy_number n then n else Finite 0)"

text \<open>
  The host's \<^verbatim>\<open>process.exit\<close> (Node.js on a POSIX system; it belongs to the platform,
  not to this repository, and neither the sources nor the specification describe it). It
  accepts an integer in the safe-integer range and ends the process; the operating system
  keeps the low eight bits of the code as the exit status. For any other number the call
  throws a \<^verbatim>\<open>RangeError\<close> and the process goes on.
\<close>

datatype process_end = Exited nat | RangeError

definition host_process_exit :: "number \<Rightarrow> process_end" where
  "host_process_exit code =
     (case code of
        Finite x \<Rightarrow>
          if x = of_int \<lfloor>x\<rfloor> \<and> - 9007199254740991 \<le> x \<and> x \<le> 9007199254740991
          then Exited (nat (\<lfloor>x\<rfloor> mod 256))
          else RangeError
      | NaN \<Rightarrow> RangeError
      | PosInfinity \<Rightarrow> RangeError
      | NegInfinity \<Rightarrow> RangeError)"

text \<open>
  A script of calls on one application. A caller may catch what a call throws and go on, so
  the script continues after a failed call; a script that stops at the first exception is a
  shorter script.
\<close>

datatype ('c, 'a) call = Use 'c "'a list" | Set 'c "'a list" | Run

fun perform ::
  "('c, 'a, 'e, 'm, 'w) runtime \<Rightarrow> ('c, 'a) call \<Rightarrow> ('c, 'a, 'm, 'w) machine
     \<Rightarrow> ('e + unit) \<times> ('c, 'a, 'm, 'w) machine" where
  "perform rt (Use k args) s = use rt k args s"
| "perform rt (Set k args) s = set_app rt k args s"
| "perform rt Run s = run rt s"

fun exec ::
  "('c, 'a, 'e, 'm, 'w) runtime \<Rightarrow> ('c, 'a) call list \<Rightarrow> ('c, 'a, 'm, 'w) machine
     \<Rightarrow> ('c, 'a, 'm, 'w) machine" where
  "exec rt [] s = s"
| "exec rt (x # xs) s = exec rt xs (snd (perform rt x s))"

section \<open>What the modules do, stated without the container\<close>

text \<open>
  Two functions that mention the module code only; the container is compared with them.

  \<open>registered rt regs w\<close> is the list of instances that the constructors return for the
  registrations \<open>regs\<close>, in the order of the registrations, together with the ambient state
  they leave, when they are called one after the other starting in \<open>w\<close>. A constructor
  that throws contributes no instance.
\<close>

fun registered ::
  "('c, 'a, 'e, 'm, 'w) runtime \<Rightarrow> ('c \<times> 'a list) list \<Rightarrow> 'w \<Rightarrow> 'm list \<times> 'w" where
  "registered rt [] w = ([], w)"
| "registered rt ((k, args) # regs) w =
     (case construct rt k args w of
        (Inl e, w1) \<Rightarrow> registered rt regs w1
      | (Inr m, w1) \<Rightarrow> (case registered rt regs w1 of (ms, w2) \<Rightarrow> (m # ms, w2)))"

definition uses :: "('c \<times> 'a list) list \<Rightarrow> ('c, 'a) call list" where
  "uses regs = map (\<lambda>(k, args). Use k args) regs"

text \<open>
  \<open>entries_return rt ms w = Some w'\<close> says that the entry points of \<open>ms\<close>, called one
  after the other starting in \<open>w\<close>, all come back without throwing and leave \<open>w'\<close>; the
  value is \<open>None\<close> when one of them throws.
\<close>

fun entries_return :: "('c, 'a, 'e, 'm, 'w) runtime \<Rightarrow> 'm list \<Rightarrow> 'w \<Rightarrow> 'w option" where
  "entries_return rt [] w = Some w"
| "entries_return rt (m # ms) w =
     (case call_default rt m w of
        (Threw e, w1) \<Rightarrow> None
      | (Returned, w1) \<Rightarrow> entries_return rt ms w1
      | (Pending, w1) \<Rightarrow> entries_return rt ms w1)"

section \<open>The module wrapper\<close>

text \<open>
  \<^verbatim>\<open>
  export class Module<T extends IModule> {
    private c: new (...args: any[]) => T
    constructor(c) { this.c = c; }
    default(...args: any[]): T { return new this.c(...args); }
  }
  \<close>
\<close>

record 'c Module =
  Module_c :: 'c

definition Module_new :: "'c \<Rightarrow> 'c Module" where
  "Module_new k = \<lparr>Module_c = k\<rparr>"

definition Module_default ::
  "('c, 'a, 'e, 'm, 'w) runtime \<Rightarrow> 'c Module \<Rightarrow> 'a list \<Rightarrow> ('c, 'a, 'm, 'w) machine
     \<Rightarrow> ('e + 'm) \<times> ('c, 'a, 'm, 'w) machine" where
  "Module_default rt this args s = new_instance rt (Module_c this) args s"

section \<open>The base controller\<close>

text \<open>
  \<^verbatim>\<open>
  export class BaseController {
    readonly path?: string;
    readonly unsecuredRoutes?: string[];
    build(): Router { return new Router({ prefix: this.path || "/" }); }
  }
  \<close>
  An optional field that is unset is \<open>None\<close>. Routers live in a store; the address of a
  router is its index, and \<^verbatim>\<open>new Router(opts)\<close> allocates the next address and keeps
  \<^verbatim>\<open>opts.prefix\<close>. In \<^verbatim>\<open>a || b\<close> the left operand is taken when it is truthy: a
  string is truthy when it is not empty, \<^verbatim>\<open>undefined\<close> is not.
\<close>

record BaseController =
  path :: "string option"
  unsecuredRoutes :: "string list option"

record Router =
  opts_prefix :: string

type_synonym store = "Router list"

definition Router_new :: "string \<Rightarrow> store \<Rightarrow> nat \<times> store" where
  "Router_new p h = (length h, h @ [\<lparr>opts_prefix = p\<rparr>])"

definition build :: "BaseController \<Rightarrow> store \<Rightarrow> nat \<times> store" where
  "build this h =
     Router_new (case path this of
                   None \<Rightarrow> ''/''
                 | Some p \<Rightarrow> if p \<noteq> [] then p else ''/'') h"

section \<open>The File model\<close>

text \<open>
  \<^verbatim>\<open>
  function toPrettyObject(_: any, obj: any): any {
    if (obj._id) {
      obj.id = obj._id;
      delete obj._id;
    }
    return obj;
  }
  \<close>
  A plain object is a map from property names to values; reading a property that is absent
  gives \<^verbatim>\<open>undefined\<close>. Numbers are integers here.
\<close>

datatype jsval =
    JUndefined
  | JNull
  | JBool bool
  | JNumber int
  | JString string
  | JObjectId string
  | JBuffer "nat list"
  | JDate int

fun truthy :: "jsval \<Rightarrow> bool" where
  "truthy JUndefined = False"
| "truthy JNull = False"
| "truthy (JBool b) = b"
| "truthy (JNumber n) = (n \<noteq> 0)"
| "truthy (JString s) = (s \<noteq> [])"
| "truthy (JObjectId i) = True"
| "truthy (JBuffer bs) = True"
| "truthy (JDate t) = True"

type_synonym obj = "string \<rightharpoonup> jsval"

definition get_prop :: "obj \<Rightarrow> string \<Rightarrow> jsval" where
  "get_prop ob k = (case ob k of None \<Rightarrow> JUndefined | Some v \<Rightarrow> v)"

definition toPrettyObject :: "'d \<Rightarrow> obj \<Rightarrow> obj" where
  "toPrettyObject d ob =
     (if truthy (get_prop ob ''_id'')
      then (ob(''id'' \<mapsto> get_prop ob ''_id''))(''_id'' := None)
      else ob)"

text \<open>
  \<^verbatim>\<open>
  export const FileSchema = new Schema<FileDocument>(
    { name: { type: String, required: true },
      content: { type: Buffer, required: true } },
    { timestamps: true,
      toObject: { transform: Utils.toPrettyObject },
      toJSON: { transform: Utils.toPrettyObject } });
  \<close>
  The schema declares no identifier of its own, so a File document carries the object
  identifier that the database library gives every document. Serialization first copies the
  document's stored fields into a plain object, the identifier under \<^verbatim>\<open>_id\<close>, and
  then applies the schema's transform to the document and that object.
\<close>

record FileDocument =
  doc_id :: string
  name :: string
  content :: "nat list"
  createdAt :: int
  updatedAt :: int
  version :: int

definition plain :: "FileDocument \<Rightarrow> obj" where
  "plain d =
     [''_id'' \<mapsto> JObjectId (doc_id d),
      ''name'' \<mapsto> JString (name d),
      ''content'' \<mapsto> JBuffer (content d),
      ''createdAt'' \<mapsto> JDate (createdAt d),
      ''updatedAt'' \<mapsto> JDate (updatedAt d),
      ''__v'' \<mapsto> JNumber (version d)]"

definition toObject :: "FileDocument \<Rightarrow> obj" where
  "toObject d = toPrettyObject d (plain d)"

definition toJSON :: "FileDocument \<Rightarrow> obj" where
  "toJSON d = toPrettyObject d (plain d)"

section \<open>Sample inputs\<close>

text \<open>
  A small runtime on which the theorems below are exercised. Constructor references,
  arguments, instances and the ambient state are numbers; thrown values are strings. The
  constructor \<open>0\<close> throws, any other constructor \<open>k\<close> returns the instance
  \<open>k + sum_list args\<close>. The entry point of instance \<open>1\<close> throws, that of instance \<open>2\<close>
  is asynchronous, all others return. Every call of module code advances the ambient state.
\<close>

definition rt0 :: "(nat, nat, string, nat, nat) runtime" where
  "rt0 = \<lparr>construct = (\<lambda>k args w.
                  if k = 0 then (Inl ''bad arguments'', Suc w)
                  else (Inr (k + sum_list args), Suc w)),
          call_default = (\<lambda>m w.
                  if m = 1 then (Threw ''boom'', Suc w)
                  else if m = 2 then (Pending, Suc w)
                  else (Returned, Suc w))\<rparr>"

text \<open>
  A second runtime, whose entry points depend on the ambient state: the entry point of
  instance \<open>1\<close> returns as long as fewer than four calls of module code have been made and
  throws afterwards. Constructors never throw.
\<close>

definition rt1 :: "(nat, nat, string, nat, nat) runtime" where
  "rt1 = \<lparr>construct = (\<lambda>k args w. (Inr k, Suc w)),
          call_default = (\<lambda>m w.
                  if m = 1 \<and> 4 \<le> w then (Threw ''again'', Suc w)
                  else (Returned, Suc w))\<rparr>"

definition s0 :: "(nat, nat, nat, nat) machine" where
  "s0 = boot 0"

definition file0 :: FileDocument where
  "file0 = \<lparr>doc_id = ''64b7f0c2a1d3e4f5a6b7c8d9'', name = ''a.txt'', content = [104, 105],
            createdAt = 1700000000, updatedAt = 1700000001, version = 0\<rparr>"

definition ctl0 :: BaseController where
  "ctl0 = \<lparr>path = Some [], unsecuredRoutes = None\<rparr>"

definition ctl1 :: BaseController where
  "ctl1 = \<lparr>path = Some ''/users'', unsecuredRoutes = Some [''/login'']\<rparr>"

section \<open>Basic facts\<close>

lemma defaults_append: "defaults (xs @ ys) = defaults xs @ defaults ys"
  by (induction xs rule: defaults.induct) simp_all

lemma defaults_map_Default: "defaults (map Default ms) = ms"
  by (induction ms) simp_all

lemma new_instance_effect:
  assumes "new_instance rt k args s = (r, s1)"
  shows "app s1 = app s" and "trace s1 = trace s @ [New k args]"
    and "construct rt k args (world s) = (r, world s1)"
  using assms by (auto simp: new_instance_def split: prod.splits)

lemma invoke_effect:
  assumes "invoke rt m s = (r, s1)"
  shows "app s1 = app s" and "trace s1 = trace s @ [Default m]"
  using assms by (auto simp: invoke_def split: prod.splits outcome.splits)

lemma run_loop_app: "run_loop rt ms s = (r, s1) \<Longrightarrow> app s1 = app s"
proof (induction ms arbitrary: s)
  case Nil
  then show ?case by simp
next
  case (Cons m ms)
  obtain q s2 where inv: "invoke rt m s = (q, s2)" by (cases "invoke rt m s")
  then have a: "app s2 = app s" by (rule invoke_effect)
  show ?case
  proof (cases q)
    case (Inl e)
    with Cons.prems inv a show ?thesis by simp
  next
    case (Inr u)
    with Cons.prems inv have "run_loop rt ms s2 = (r, s1)" by simp
    then have "app s1 = app s2" by (rule Cons.IH)
    with a show ?thesis by simp
  qed
qed

lemma run_loop_append:
  "run_loop rt (ms1 @ ms2) s =
     (case run_loop rt ms1 s of (Inl e, s1) \<Rightarrow> (Inl e, s1) | (Inr u, s1) \<Rightarrow> run_loop rt ms2 s1)"
  by (induction ms1 arbitrary: s) (auto split: prod.splits sum.splits)


lemma use_effect:
  assumes "use rt k args s = (r, s')"
  shows "trace s' = trace s @ [New k args]"
    and "initModules (app s') = initModules (app s)"
    and "construct rt k args (world s) = (Inr m, w) \<Longrightarrow>
           r = Inr () \<and> world s' = w \<and> modules (app s') = modules (app s) @ [m]"
    and "construct rt k args (world s) = (Inl e, w) \<Longrightarrow>
           r = Inl e \<and> world s' = w \<and> modules (app s') = modules (app s)"
  using assms
  by (auto simp: use_def new_instance_def push_modules_def split: prod.splits sum.splits)

lemma set_app_effect:
  assumes "set_app rt k args s = (r, s')"
  shows "modules (app s') = modules (app s)"
    and "construct rt k args (world s) = (Inr m, w) \<Longrightarrow>
           trace s' = trace s @ [New k args, Default m]
           \<and> initModules (app s') = initModules (app s) @ [m]"
    and "construct rt k args (world s) = (Inl e, w) \<Longrightarrow>
           r = Inl e \<and> world s' = w \<and> trace s' = trace s @ [New k args]
           \<and> initModules (app s') = initModules (app s)"
  using assms
  by (auto simp: set_app_def new_instance_def invoke_def push_initModules_def
           split: prod.splits sum.splits outcome.splits)



lemma boot_initModules: "initModules (app (boot w)) = []"
  by (simp add: boot_def Application_new_def)



lemma toPrettyObject_truthy:
  "truthy (get_prop ob ''_id'') \<Longrightarrow>
     toPrettyObject d ob ''id'' = Some (get_prop ob ''_id'') \<and> toPrettyObject d ob ''_id'' = None"
  by (simp add: toPrettyObject_def)

lemma toPrettyObject_falsy:
  "\<not> truthy (get_prop ob ''_id'') \<Longrightarrow> toPrettyObject d ob = ob"
  by (simp add: toPrettyObject_def)

lemma toPrettyObject_other:
  "key \<noteq> ''id'' \<Longrightarrow> key \<noteq> ''_id'' \<Longrightarrow> toPrettyObject d ob key = ob key"
  by (simp add: toPrettyObject_def)

lemma plain_id: "get_prop (plain d) ''_id'' = JObjectId (doc_id d)"
  by (simp add: plain_def get_prop_def)

lemma build_effect:
  assumes "build this h = (r, h')"
  shows "r = length h"
    and "h' = h @ [\<lparr>opts_prefix = (case path this of None \<Rightarrow> ''/''
                                     | Some p \<Rightarrow> if p \<noteq> [] then p else ''/'')\<rparr>]"
  using assms by (simp_all add: build_def Router_new_def)

lemma invoke_world:
  assumes "call_default rt m (world s) = (oc, w)"
  shows "invoke rt m s =
    ((case oc of Threw e \<Rightarrow> Inl e | Returned \<Rightarrow> Inr () | Pending \<Rightarrow> Inr ()),
     s\<lparr>world := w, trace := trace s @ [Default m]\<rparr>)"
  using assms by (cases oc) (simp_all add: invoke_def)

lemma run_loop_returns:
  "entries_return rt ms (world s) = Some w \<Longrightarrow>
     run_loop rt ms s = (Inr (), s\<lparr>world := w, trace := trace s @ map Default ms\<rparr>)"
proof (induction ms arbitrary: s)
  case Nil
  then show ?case by simp
next
  case (Cons m ms)
  obtain oc w1 where c: "call_default rt m (world s) = (oc, w1)"
    by (cases "call_default rt m (world s)")
  let ?s1 = "s\<lparr>world := w1, trace := trace s @ [Default m]\<rparr>"
  from Cons.prems c have nt: "\<And>e. oc \<noteq> Threw e"
    and r: "entries_return rt ms (world ?s1) = Some w"
    by (cases oc; simp)+
  from nt invoke_world [OF c] have i: "invoke rt m s = (Inr (), ?s1)"
    by (cases oc) auto
  from Cons.IH [OF r] i show ?case
    by simp
qed

lemma run_loop_throws:
  assumes "entries_return rt ms1 (world s) = Some w1"
    and "call_default rt m w1 = (Threw e, w2)"
  shows "run_loop rt (ms1 @ m # ms2) s
    = (Inl e, s\<lparr>world := w2, trace := trace s @ map Default (ms1 @ [m])\<rparr>)"
proof -
  let ?s1 = "s\<lparr>world := w1, trace := trace s @ map Default ms1\<rparr>"
  from run_loop_returns [OF assms(1)] have a: "run_loop rt ms1 s = (Inr (), ?s1)" .
  from assms(2) have "invoke rt m ?s1
      = (Inl e, ?s1\<lparr>world := w2, trace := trace ?s1 @ [Default m]\<rparr>)"
    by (simp add: invoke_def)
  then have "run_loop rt (m # ms2) ?s1
      = (Inl e, s\<lparr>world := w2, trace := trace s @ map Default (ms1 @ [m])\<rparr>)"
    by simp
  with a show ?thesis
    by (simp add: run_loop_append)
qed

lemma entries_return_None:
  "entries_return rt ms w = None \<Longrightarrow>
     \<exists>ms1 m ms2 w1 e w2. ms = ms1 @ m # ms2 \<and> entries_return rt ms1 w = Some w1
        \<and> call_default rt m w1 = (Threw e, w2)"
proof (induction ms arbitrary: w)
  case Nil
  then show ?case by simp
next
  case (Cons m ms)
  obtain oc w1 where c: "call_default rt m w = (oc, w1)"
    by (cases "call_default rt m w")
  show ?case
  proof (cases "\<exists>e. oc = Threw e")
    case True
    then obtain e where "oc = Threw e" ..
    with c have "m # ms = [] @ m # ms \<and> entries_return rt [] w = Some w
        \<and> call_default rt m w = (Threw e, w1)"
      by simp
    then show ?thesis by blast
  next
    case False
    with Cons.prems c have n: "entries_return rt ms w1 = None"
      and h: "\<And>w'. entries_return rt (m # ms') w = entries_return rt ms' w1" for ms'
      by (cases oc; simp)+
    from Cons.IH [OF n] obtain ms1 m' ms2 w1' e w2 where d: "ms = ms1 @ m' # ms2"
      "entries_return rt ms1 w1 = Some w1'" "call_default rt m' w1' = (Threw e, w2)"
      by blast
    from d h have "m # ms = (m # ms1) @ m' # ms2 \<and> entries_return rt (m # ms1) w = Some w1'
        \<and> call_default rt m' w1' = (Threw e, w2)"
      by simp
    then show ?thesis by blast
  qed
qed

lemma exec_uses:
  "modules (app (exec rt (uses regs) s)) = modules (app s) @ fst (registered rt regs (world s))
   \<and> initModules (app (exec rt (uses regs) s)) = initModules (app s)
   \<and> world (exec rt (uses regs) s) = snd (registered rt regs (world s))
   \<and> defaults (trace (exec rt (uses regs) s)) = defaults (trace s)"
proof (induction regs arbitrary: s)
  case Nil
  then show ?case by (simp add: uses_def)
next
  case (Cons x regs)
  obtain k args where x: "x = (k, args)" by (cases x)
  obtain r s1 where u: "use rt k args s = (r, s1)" by (cases "use rt k args s")
  obtain q w1 where c: "construct rt k args (world s) = (q, w1)"
    by (cases "construct rt k args (world s)")
  have e: "exec rt (uses (x # regs)) s = exec rt (uses regs) s1"
    using x u by (simp add: uses_def)
  have t: "defaults (trace s1) = defaults (trace s)"
    using use_effect(1) [OF u] by (simp add: defaults_append)
  have i: "initModules (app s1) = initModules (app s)"
    using use_effect(2) [OF u] .
  show ?case
  proof (cases q)
    case (Inl e')
    with use_effect(4) [OF u] c have "world s1 = w1" "modules (app s1) = modules (app s)"
      by simp_all
    with Cons.IH [of s1] e t i x c Inl show ?thesis
      by simp
  next
    case (Inr m)
    with use_effect(3) [OF u] c have "world s1 = w1" "modules (app s1) = modules (app s) @ [m]"
      by simp_all
    with Cons.IH [of s1] e t i x c Inr show ?thesis
      by (simp split: prod.splits)
  qed
qed

section \<open>Init modules: \<open>set\<close>\<close>

text \<open>
  C1. When the constructor returns an instance \<open>m\<close>, a call of \<open>set\<close> appends \<open>m\<close> to
  \<open>initModules\<close> and calls the entry point of \<open>m\<close> exactly once, after the constructor:
  the events the call adds to the trace are the construction and one \<open>Default m\<close>, the
  ambient state \<open>set\<close> leaves is the one that this entry point call leaves when it is made
  in the state the constructor left, and \<open>set\<close> throws what the entry point throws and
  returns otherwise. This holds whatever the entry point does (returns, throws, or is
  asynchronous), so in particular for synchronous ones.
\<close>

theorem set_registers_and_invokes:
  assumes "construct rt k args (world s) = (Inr m, w)"
    and "set_app rt k args s = (r, s')"
  shows "initModules (app s') = initModules (app s) @ [m]
       \<and> trace s' = trace s @ [New k args, Default m]
       \<and> defaults (drop (length (trace s)) (trace s')) = [m]
       \<and> world s' = snd (call_default rt m w)
       \<and> r = (case fst (call_default rt m w) of
                Threw e \<Rightarrow> Inl e | Returned \<Rightarrow> Inr () | Pending \<Rightarrow> Inr ())"
proof -
  from set_app_effect(2) [OF assms(2) assms(1)]
  have t: "trace s' = trace s @ [New k args, Default m]"
    and i: "initModules (app s') = initModules (app s) @ [m]" by simp_all
  from t have d: "defaults (drop (length (trace s)) (trace s')) = [m]" by simp
  let ?s1 = "push_initModules m (s\<lparr>world := w, trace := trace s @ [New k args]\<rparr>)"
  obtain oc w2 where c: "call_default rt m w = (oc, w2)"
    by (cases "call_default rt m w")
  then have "call_default rt m (world ?s1) = (oc, w2)"
    by (simp add: push_initModules_def)
  from invoke_world [OF this] assms have
    "(r, s') = ((case oc of Threw e \<Rightarrow> Inl e | Returned \<Rightarrow> Inr () | Pending \<Rightarrow> Inr ()),
       ?s1\<lparr>world := w2, trace := trace ?s1 @ [Default m]\<rparr>)"
    by (simp add: set_app_def new_instance_def)
  with c have "world s' = snd (call_default rt m w)"
    and "r = (case fst (call_default rt m w) of
                Threw e \<Rightarrow> Inl e | Returned \<Rightarrow> Inr () | Pending \<Rightarrow> Inr ())"
    by simp_all
  with t i d show ?thesis by simp
qed

theorem set_registers_and_invokes_witness:
  "construct rt0 3 [] (world s0) = (Inr 3, 1)
   \<and> call_default rt0 3 1 = (Returned, 2)
   \<and> fst (set_app rt0 3 [] s0) = Inr ()
   \<and> initModules (app (snd (set_app rt0 3 [] s0))) = [3]
   \<and> trace (snd (set_app rt0 3 [] s0)) = [New 3 [], Default 3]
   \<and> world (snd (set_app rt0 3 [] s0)) = 2"
proof -
  have c: "construct rt0 3 [] (world s0) = (Inr 3, 1)"
    and d: "call_default rt0 3 1 = (Returned, 2)"
    by (simp_all add: rt0_def s0_def boot_def)
  have p: "set_app rt0 3 [] s0 = (fst (set_app rt0 3 [] s0), snd (set_app rt0 3 [] s0))"
    by simp
  have e: "initModules (app s0) = []" and f: "trace s0 = []"
    by (simp_all add: s0_def boot_def Application_new_def)
  note inst = set_registers_and_invokes [OF c p]
  from inst d have g: "fst (set_app rt0 3 [] s0) = Inr ()"
    and h: "world (snd (set_app rt0 3 [] s0)) = 2"
    by simp_all
  from inst e have i: "initModules (app (snd (set_app rt0 3 [] s0))) = [3]"
    by simp
  from inst f have j: "trace (snd (set_app rt0 3 [] s0)) = [New 3 [], Default 3]"
    by simp
  show ?thesis
    by (intro conjI) fact+
qed

section \<open>Regular modules: \<open>use\<close> and \<open>run\<close>\<close>

text \<open>
  The claim C2 as written (after any sequence of \<open>use\<close> calls, one \<open>run()\<close> invokes the
  entry point of each regular module exactly once) fails when an entry point throws: the
  loop of \<open>run\<close> ends there. Below, the instances \<open>1\<close> and \<open>2\<close> are registered, the entry
  point of \<open>1\<close> throws, and the entry point of \<open>2\<close> is never invoked.
\<close>

theorem run_after_uses_counterexample:
  "modules (app (exec rt0 [Use 1 [], Use 2 []] s0)) = [1, 2]
   \<and> fst (run rt0 (exec rt0 [Use 1 [], Use 2 []] s0)) = Inl ''boom''
   \<and> defaults (trace (snd (run rt0 (exec rt0 [Use 1 [], Use 2 []] s0)))) = [1]
   \<and> count_list (defaults (trace (snd (run rt0 (exec rt0 [Use 1 [], Use 2 []] s0))))) 2 = 0"
  by (simp add: run_def use_def new_instance_def invoke_def push_modules_def rt0_def s0_def
        boot_def Application_new_def)

text \<open>
  C2, amended. After a sequence of \<open>use\<close> calls on a new application the regular modules
  are the instances the constructors returned, in the order of the calls, and no entry point
  has been invoked. One \<open>run()\<close> then calls the entry points in that order, each in the
  ambient state the one before left. When all of them come back without throwing, \<open>run\<close>
  returns and has invoked every regular module's entry point exactly once, in the order of
  registration. When the entry point of \<open>m\<close> is the first that throws, \<open>run\<close> throws the
  same value and has invoked exactly the modules before \<open>m\<close> and \<open>m\<close> itself, once each and
  in order; the modules after \<open>m\<close> are not invoked.
\<close>

theorem run_after_uses:
  assumes "s = exec rt (uses regs) (boot w)"
    and "run rt s = (r, s')"
  shows "modules (app s) = fst (registered rt regs w)
       \<and> world s = snd (registered rt regs w)
       \<and> defaults (trace s) = []
       \<and> (\<forall>w'. entries_return rt (modules (app s)) (world s) = Some w' \<longrightarrow>
             r = Inr () \<and> defaults (trace s') = modules (app s) \<and> world s' = w')
       \<and> (\<forall>ms1 m ms2 w1 e w2.
             modules (app s) = ms1 @ m # ms2 \<and> entries_return rt ms1 (world s) = Some w1
             \<and> call_default rt m w1 = (Threw e, w2) \<longrightarrow>
             r = Inl e \<and> defaults (trace s') = ms1 @ [m] \<and> world s' = w2)"
proof -
  from exec_uses [of rt regs "boot w"] assms(1)
  have a: "modules (app s) = fst (registered rt regs w)"
    and b: "world s = snd (registered rt regs w)"
    and c: "defaults (trace s) = []"
    by (simp_all add: boot_def Application_new_def)
  from assms(2) have l: "run_loop rt (modules (app s)) s = (r, s')"
    by (simp add: run_def)
  have d: "r = Inr () \<and> defaults (trace s') = modules (app s) \<and> world s' = w'"
    if "entries_return rt (modules (app s)) (world s) = Some w'" for w'
    using run_loop_returns [OF that] l c
    by (auto simp: defaults_append defaults_map_Default)
  have e: "r = Inl e \<and> defaults (trace s') = ms1 @ [m] \<and> world s' = w2"
    if "modules (app s) = ms1 @ m # ms2" and "entries_return rt ms1 (world s) = Some w1"
      and "call_default rt m w1 = (Threw e, w2)" for ms1 m ms2 w1 e w2
  proof -
    from run_loop_throws [OF that(2,3), of ms2] l that(1)
    have "(r, s') = (Inl e, s\<lparr>world := w2, trace := trace s @ map Default (ms1 @ [m])\<rparr>)"
      by simp
    then have "r = Inl e" and "world s' = w2"
      and "trace s' = trace s @ map Default (ms1 @ [m])"
      by simp_all
    with c show ?thesis
      by (simp add: defaults_append defaults_map_Default del: map_append)
  qed
  from a b c d e show ?thesis by blast
qed

theorem run_after_uses_witness:
  "exec rt0 (uses [(4, [1]), (0, []), (2, [])]) (boot 0) = exec rt0 [Use 4 [1], Use 0 [], Use 2 []] (boot 0)
   \<and> registered rt0 [(4, [1]), (0, []), (2, [])] 0 = ([5, 2], 3)
   \<and> modules (app (exec rt0 [Use 4 [1], Use 0 [], Use 2 []] (boot 0))) = [5, 2]
   \<and> entries_return rt0 [5, 2] 3 = Some 5
   \<and> fst (run rt0 (exec rt0 [Use 4 [1], Use 0 [], Use 2 []] (boot 0))) = Inr ()
   \<and> defaults (trace (snd (run rt0 (exec rt0 [Use 4 [1], Use 0 [], Use 2 []] (boot 0))))) = [5, 2]
   \<and> world (snd (run rt0 (exec rt0 [Use 4 [1], Use 0 [], Use 2 []] (boot 0)))) = 5
   \<and> registered rt0 [(2, []), (1, []), (3, [])] 0 = ([2] @ 1 # [3], 3)
   \<and> entries_return rt0 [2] 3 = Some 4
   \<and> call_default rt0 1 4 = (Threw ''boom'', 5)
   \<and> fst (run rt0 (exec rt0 [Use 2 [], Use 1 [], Use 3 []] (boot 0))) = Inl ''boom''
   \<and> defaults (trace (snd (run rt0 (exec rt0 [Use 2 [], Use 1 [], Use 3 []] (boot 0))))) = [2, 1]
   \<and> world (snd (run rt0 (exec rt0 [Use 2 [], Use 1 [], Use 3 []] (boot 0)))) = 5"
proof -
  let ?regs = "[(4, [1]), (0, []), (2, [])] :: (nat \<times> nat list) list"
  let ?s = "exec rt0 [Use 4 [1], Use 0 [], Use 2 []] (boot 0)"
  let ?regs' = "[(2, []), (1, []), (3, [])] :: (nat \<times> nat list) list"
  let ?t = "exec rt0 [Use 2 [], Use 1 [], Use 3 []] (boot 0)"
  have u: "exec rt0 (uses ?regs) (boot 0) = ?s" and u': "?t = exec rt0 (uses ?regs') (boot 0)"
    by (simp_all add: uses_def)
  have g: "registered rt0 ?regs 0 = ([5, 2], 3)"
    and g': "registered rt0 ?regs' 0 = ([2] @ 1 # [3], 3)"
    by (simp_all add: rt0_def)
  have en: "entries_return rt0 [5, 2] 3 = Some 5" and en': "entries_return rt0 [2] 3 = Some 4"
    and cd: "call_default rt0 1 4 = (Threw ''boom'', 5)"
    by (simp_all add: rt0_def)
  have p: "run rt0 ?s = (fst (run rt0 ?s), snd (run rt0 ?s))"
    and p': "run rt0 ?t = (fst (run rt0 ?t), snd (run rt0 ?t))"
    by simp_all
  note inst = run_after_uses [OF u [symmetric] p]
  from inst g have m: "modules (app ?s) = [5, 2]" and w: "world ?s = 3"
    by simp_all
  from inst m w en have a: "fst (run rt0 ?s) = Inr ()"
    and b: "defaults (trace (snd (run rt0 ?s))) = [5, 2]"
    and c: "world (snd (run rt0 ?s)) = 5"
    by simp_all
  note inst' = run_after_uses [OF u' p']
  from inst' g' have m': "modules (app ?t) = [2] @ 1 # [3]" and w': "world ?t = 3"
    by simp_all
  note thrown = inst' [THEN conjunct2, THEN conjunct2, THEN conjunct2, THEN conjunct2,
      rule_format, of "[2]" 1 "[3]" 4 "''boom''" 5]
  from thrown m' w' en' cd have "fst (run rt0 ?t) = Inl ''boom''
      \<and> defaults (trace (snd (run rt0 ?t))) = [2] @ [1] \<and> world (snd (run rt0 ?t)) = 5"
    by simp
  then have a': "fst (run rt0 ?t) = Inl ''boom''"
    and b': "defaults (trace (snd (run rt0 ?t))) = [2, 1]"
    and c': "world (snd (run rt0 ?t)) = 5"
    by simp_all
  show ?thesis
    by (intro conjI) fact+
qed



section \<open>What each operation leaves alone\<close>

text \<open>
  The claim C10 as written fails in its last part (a second \<open>run()\<close> invokes every regular
  module's entry point again): the second run stops, like any run, at the first entry point
  that throws. Below, both entry points return during the first run; during the second run
  the entry point of instance \<open>1\<close> throws, and the one of instance \<open>2\<close> is not invoked again.
\<close>

theorem operations_frame_counterexample:
  "modules (app (exec rt1 [Use 1 [], Use 2 []] (boot 0))) = [1, 2]
   \<and> fst (run rt1 (exec rt1 [Use 1 [], Use 2 []] (boot 0))) = Inr ()
   \<and> defaults (trace (exec rt1 [Use 1 [], Use 2 [], Run] (boot 0))) = [1, 2]
   \<and> modules (app (exec rt1 [Use 1 [], Use 2 [], Run] (boot 0))) = [1, 2]
   \<and> fst (run rt1 (exec rt1 [Use 1 [], Use 2 [], Run] (boot 0))) = Inl ''again''
   \<and> defaults (trace (exec rt1 [Use 1 [], Use 2 [], Run, Run] (boot 0))) = [1, 2, 1]"
  by (simp add: run_def use_def new_instance_def invoke_def push_modules_def rt1_def
        boot_def Application_new_def)

text \<open>
  C10, amended. \<open>use\<close> leaves \<open>initModules\<close> unchanged and appends the constructed instance
  to \<open>modules\<close>; \<open>set\<close> leaves \<open>modules\<close> unchanged and appends the constructed instance to
  \<open>initModules\<close>; a call whose constructor throws has no instance to register and changes
  neither sequence. \<open>run\<close> changes neither sequence, so a second \<open>run()\<close> iterates over the
  same regular modules again: when their entry points all come back without throwing it
  invokes every one of them once more, in order, and otherwise it invokes them again only up
  to and including the first that throws.
\<close>

theorem operations_frame:
  "(use rt k args s = (r, s') \<longrightarrow>
      initModules (app s') = initModules (app s)
      \<and> (\<forall>m w. construct rt k args (world s) = (Inr m, w) \<longrightarrow>
            modules (app s') = modules (app s) @ [m])
      \<and> (\<forall>e w. construct rt k args (world s) = (Inl e, w) \<longrightarrow>
            modules (app s') = modules (app s)))
   \<and> (set_app rt k args s = (r, s') \<longrightarrow>
      modules (app s') = modules (app s)
      \<and> (\<forall>m w. construct rt k args (world s) = (Inr m, w) \<longrightarrow>
            initModules (app s') = initModules (app s) @ [m])
      \<and> (\<forall>e w. construct rt k args (world s) = (Inl e, w) \<longrightarrow>
            initModules (app s') = initModules (app s)))
   \<and> (run rt s = (r, s') \<longrightarrow>
      app s' = app s
      \<and> run rt s' = run_loop rt (modules (app s)) s'
      \<and> (\<forall>w'. entries_return rt (modules (app s)) (world s') = Some w' \<longrightarrow>
            run rt s' = (Inr (), s'\<lparr>world := w',
                                   trace := trace s' @ map Default (modules (app s))\<rparr>))
      \<and> (\<forall>ms1 m ms2 w1 e w2.
            modules (app s) = ms1 @ m # ms2 \<and> entries_return rt ms1 (world s') = Some w1
            \<and> call_default rt m w1 = (Threw e, w2) \<longrightarrow>
            run rt s' = (Inl e, s'\<lparr>world := w2,
                                  trace := trace s' @ map Default (ms1 @ [m])\<rparr>)))"
proof -
  have a: "initModules (app s') = initModules (app s)
      \<and> (\<forall>m w. construct rt k args (world s) = (Inr m, w) \<longrightarrow>
            modules (app s') = modules (app s) @ [m])
      \<and> (\<forall>e w. construct rt k args (world s) = (Inl e, w) \<longrightarrow>
            modules (app s') = modules (app s))"
    if "use rt k args s = (r, s')"
    using use_effect(2,3,4) [OF that] by blast
  have b: "modules (app s') = modules (app s)
      \<and> (\<forall>m w. construct rt k args (world s) = (Inr m, w) \<longrightarrow>
            initModules (app s') = initModules (app s) @ [m])
      \<and> (\<forall>e w. construct rt k args (world s) = (Inl e, w) \<longrightarrow>
            initModules (app s') = initModules (app s))"
    if "set_app rt k args s = (r, s')"
    using set_app_effect [OF that] by blast
  have c: "app s' = app s
      \<and> run rt s' = run_loop rt (modules (app s)) s'
      \<and> (\<forall>w'. entries_return rt (modules (app s)) (world s') = Some w' \<longrightarrow>
            run rt s' = (Inr (), s'\<lparr>world := w',
                                   trace := trace s' @ map Default (modules (app s))\<rparr>))
      \<and> (\<forall>ms1 m ms2 w1 e w2.
            modules (app s) = ms1 @ m # ms2 \<and> entries_return rt ms1 (world s') = Some w1
            \<and> call_default rt m w1 = (Threw e, w2) \<longrightarrow>
            run rt s' = (Inl e, s'\<lparr>world := w2,
                                  trace := trace s' @ map Default (ms1 @ [m])\<rparr>))"
    if "run rt s = (r, s')"
  proof -
    from that have e: "app s' = app s"
      by (simp add: run_def run_loop_app)
    then have f: "run rt s' = run_loop rt (modules (app s)) s'"
      by (simp add: run_def)
    have g: "run rt s' = (Inr (), s'\<lparr>world := w',
                                   trace := trace s' @ map Default (modules (app s))\<rparr>)"
      if "entries_return rt (modules (app s)) (world s') = Some w'" for w'
      using run_loop_returns [OF that] f by simp
    have h: "run rt s' = (Inl e, s'\<lparr>world := w2,
                                  trace := trace s' @ map Default (ms1 @ [m])\<rparr>)"
      if "modules (app s) = ms1 @ m # ms2" and "entries_return rt ms1 (world s') = Some w1"
        and "call_default rt m w1 = (Threw e, w2)" for ms1 m ms2 w1 e w2
      using run_loop_throws [OF that(2,3), of ms2] f that(1) by simp
    from e f g h show ?thesis by blast
  qed
  from a b c show ?thesis by blast
qed

theorem operations_frame_witness:
  "app (snd (use rt0 3 [] (exec rt0 [Set 7 [], Use 2 []] s0)))
     = \<lparr>initModules = [7], modules = [2, 3]\<rparr>
   \<and> app (snd (set_app rt0 3 [] (exec rt0 [Set 7 [], Use 2 []] s0)))
     = \<lparr>initModules = [7, 3], modules = [2]\<rparr>
   \<and> app (snd (use rt0 0 [] (exec rt0 [Set 7 [], Use 2 []] s0)))
     = \<lparr>initModules = [7], modules = [2]\<rparr>
   \<and> app (snd (set_app rt0 0 [] (exec rt0 [Set 7 [], Use 2 []] s0)))
     = \<lparr>initModules = [7], modules = [2]\<rparr>
   \<and> fst (run rt0 (exec rt0 [Set 7 [], Use 2 []] s0)) = Inr ()
   \<and> app (snd (run rt0 (exec rt0 [Set 7 [], Use 2 []] s0)))
     = \<lparr>initModules = [7], modules = [2]\<rparr>
   \<and> entries_return rt0 [2] (world (snd (run rt0 (exec rt0 [Set 7 [], Use 2 []] s0)))) = Some 5
   \<and> fst (run rt0 (snd (run rt0 (exec rt0 [Set 7 [], Use 2 []] s0)))) = Inr ()
   \<and> defaults (trace (exec rt0 [Set 7 [], Use 2 [], Run, Run] s0)) = [7, 2, 2]
   \<and> world (exec rt0 [Set 7 [], Use 2 [], Run, Run] s0) = 5
   \<and> modules (app (exec rt1 [Use 1 [], Use 2 []] (boot 0))) = [] @ 1 # [2]
   \<and> entries_return rt1 [] (world (exec rt1 [Use 1 [], Use 2 [], Run] (boot 0))) = Some 4
   \<and> call_default rt1 1 4 = (Threw ''again'', 5)
   \<and> fst (run rt1 (exec rt1 [Use 1 [], Use 2 [], Run] (boot 0))) = Inl ''again''
   \<and> defaults (trace (exec rt1 [Use 1 [], Use 2 [], Run, Run] (boot 0))) = [1, 2, 1]
   \<and> world (exec rt1 [Use 1 [], Use 2 [], Run, Run] (boot 0)) = 5"
proof -
  let ?s = "exec rt0 [Set 7 [], Use 2 []] s0"
  let ?u = "use rt0 3 [] ?s" and ?t = "set_app rt0 3 [] ?s" and ?r = "run rt0 ?s"
  let ?v = "use rt0 0 [] ?s" and ?z = "set_app rt0 0 [] ?s"
  let ?r2 = "run rt0 (snd ?r)"
  let ?a = "exec rt1 [Use 1 [], Use 2 []] (boot 0)"
  let ?b = "run rt1 ?a"
  let ?b2 = "run rt1 (snd ?b)"
  have s: "app ?s = \<lparr>initModules = [7], modules = [2]\<rparr>"
    and t: "defaults (trace ?s) = [7]" and ws: "world ?s = 3"
    by (simp_all add: use_def set_app_def new_instance_def invoke_def push_modules_def
          push_initModules_def rt0_def s0_def boot_def Application_new_def)
  have c: "construct rt0 3 [] (world ?s) = (Inr 3, Suc (world ?s))"
    and c0: "construct rt0 0 [] (world ?s) = (Inl ''bad arguments'', Suc (world ?s))"
    by (simp_all add: rt0_def)
  have pu: "?u = (fst ?u, snd ?u)" and pt: "?t = (fst ?t, snd ?t)" and pr: "?r = (fst ?r, snd ?r)"
    and pv: "?v = (fst ?v, snd ?v)" and pz: "?z = (fst ?z, snd ?z)"
    and pb: "?b = (fst ?b, snd ?b)"
    by simp_all
  have r1: "fst ?r = Inr ()" and tr: "defaults (trace (snd ?r)) = [7, 2]"
    and wr: "world (snd ?r) = 4"
    using s t ws by (simp_all add: run_def invoke_def rt0_def defaults_append)
  from operations_frame [of rt0 3 "[]" ?s "fst ?u" "snd ?u"] pu c s
  have a: "app (snd ?u) = \<lparr>initModules = [7], modules = [2, 3]\<rparr>"
    by (auto intro: Application.equality)
  from operations_frame [of rt0 3 "[]" ?s "fst ?t" "snd ?t"] pt c s
  have b: "app (snd ?t) = \<lparr>initModules = [7, 3], modules = [2]\<rparr>"
    by (auto intro: Application.equality)
  from operations_frame [of rt0 0 "[]" ?s "fst ?v" "snd ?v"] pv c0 s
  have a0: "app (snd ?v) = \<lparr>initModules = [7], modules = [2]\<rparr>"
    by (auto intro: Application.equality)
  from operations_frame [of rt0 0 "[]" ?s "fst ?z" "snd ?z"] pz c0 s
  have b0: "app (snd ?z) = \<lparr>initModules = [7], modules = [2]\<rparr>"
    by (auto intro: Application.equality)
  note inst = operations_frame [of rt0 _ _ ?s "fst ?r" "snd ?r", THEN conjunct2, THEN conjunct2,
      rule_format, OF pr]
  from inst s have d: "app (snd ?r) = \<lparr>initModules = [7], modules = [2]\<rparr>"
    by simp
  have en: "entries_return rt0 [2] (world (snd ?r)) = Some 5"
    using wr by (simp add: rt0_def)
  note again = inst [THEN conjunct2, THEN conjunct2, THEN conjunct1, rule_format, of 5]
  from again s en
  have e: "?r2 = (Inr (), snd ?r\<lparr>world := 5, trace := trace (snd ?r) @ map Default [2]\<rparr>)"
    by simp
  then have r2: "fst ?r2 = Inr ()"
    and tr2: "defaults (trace (snd ?r2)) = [7, 2, 2]" and wr2: "world (snd ?r2) = 5"
    using tr by (simp_all add: defaults_append)
  have x: "exec rt0 [Set 7 [], Use 2 [], Run, Run] s0 = snd ?r2"
    by simp
  from x tr2 have g: "defaults (trace (exec rt0 [Set 7 [], Use 2 [], Run, Run] s0)) = [7, 2, 2]"
    by simp
  from x wr2 have g': "world (exec rt0 [Set 7 [], Use 2 [], Run, Run] s0) = 5"
    by simp
  have ma: "modules (app ?a) = [] @ 1 # [2]" and ta: "defaults (trace (snd ?b)) = [1, 2]"
    and wb: "world (snd ?b) = 4"
    by (simp_all add: run_def use_def new_instance_def invoke_def push_modules_def rt1_def
          boot_def Application_new_def)
  have y: "exec rt1 [Use 1 [], Use 2 [], Run] (boot 0) = snd ?b"
    and y2: "exec rt1 [Use 1 [], Use 2 [], Run, Run] (boot 0) = snd ?b2"
    by simp_all
  have en1: "entries_return rt1 [] (world (snd ?b)) = Some 4"
    using wb by simp
  have cd: "call_default rt1 1 4 = (Threw ''again'', 5)"
    by (simp add: rt1_def)
  note thrown = operations_frame [of rt1 _ _ ?a "fst ?b" "snd ?b", THEN conjunct2,
      THEN conjunct2, rule_format, OF pb, THEN conjunct2, THEN conjunct2, THEN conjunct2,
      rule_format, of "[]" 1 "[2]" 4 "''again''" 5]
  from thrown ma en1 cd
  have f: "?b2 = (Inl ''again'',
      snd ?b\<lparr>world := 5, trace := trace (snd ?b) @ map Default ([] @ [1])\<rparr>)"
    by simp
  then have r3: "fst ?b2 = Inl ''again''"
    and tr3: "defaults (trace (snd ?b2)) = [1, 2, 1]" and wr3: "world (snd ?b2) = 5"
    using ta by (simp_all add: defaults_append)
  from y en1 have h1: "entries_return rt1 [] (world (exec rt1 [Use 1 [], Use 2 [], Run] (boot 0)))
      = Some 4"
    by simp
  from y r3 have h2: "fst (run rt1 (exec rt1 [Use 1 [], Use 2 [], Run] (boot 0))) = Inl ''again''"
    by simp
  from y2 tr3 have h3: "defaults (trace (exec rt1 [Use 1 [], Use 2 [], Run, Run] (boot 0)))
      = [1, 2, 1]"
    by simp
  from y2 wr3 have h4: "world (exec rt1 [Use 1 [], Use 2 [], Run, Run] (boot 0)) = 5"
    by simp
  show ?thesis
    by (intro conjI) fact+
qed

section \<open>Failures\<close>

text \<open>
  C6. Nothing is caught or changed on the way out. When the constructor throws \<open>e\<close>, both
  \<open>use\<close> and \<open>set\<close> throw \<open>e\<close>. When the constructor returns \<open>m\<close> and the entry point of
  \<open>m\<close> throws \<open>e\<close> synchronously, \<open>set\<close> throws \<open>e\<close>. When, during \<open>run\<close>, the entry
  points of the regular modules before \<open>m\<close> have returned and the one of \<open>m\<close> throws \<open>e\<close>,
  \<open>run\<close> throws \<open>e\<close>.
\<close>

theorem exceptions_propagate:
  "(construct rt k args (world s) = (Inl e, w) \<longrightarrow>
      fst (use rt k args s) = Inl e \<and> fst (set_app rt k args s) = Inl e)
   \<and> (construct rt k args (world s) = (Inr m, w) \<and> call_default rt m w = (Threw e, w') \<longrightarrow>
      fst (set_app rt k args s) = Inl e)
   \<and> (modules (app s) = ms1 @ m # ms2 \<and> run_loop rt ms1 s = (Inr (), s1)
        \<and> call_default rt m (world s1) = (Threw e, w') \<longrightarrow>
      fst (run rt s) = Inl e)"
proof -
  have a: "fst (use rt k args s) = Inl e \<and> fst (set_app rt k args s) = Inl e"
    if "construct rt k args (world s) = (Inl e, w)"
    using that by (simp add: use_def set_app_def new_instance_def)
  have b: "fst (set_app rt k args s) = Inl e"
    if "construct rt k args (world s) = (Inr m, w)" and "call_default rt m w = (Threw e, w')"
    using that by (simp add: set_app_def new_instance_def invoke_def push_initModules_def)
  have c: "fst (run rt s) = Inl e"
    if "modules (app s) = ms1 @ m # ms2" and "run_loop rt ms1 s = (Inr (), s1)"
      and "call_default rt m (world s1) = (Threw e, w')"
  proof -
    from that(3) have "fst (run_loop rt (m # ms2) s1) = Inl e"
      by (simp add: invoke_def)
    with that(1,2) show ?thesis
      by (simp add: run_def run_loop_append)
  qed
  from a b c show ?thesis by blast
qed

theorem exceptions_propagate_witness:
  "construct rt0 0 [] (world s0) = (Inl ''bad arguments'', 1)
   \<and> fst (use rt0 0 [] s0) = Inl ''bad arguments''
   \<and> fst (set_app rt0 0 [] s0) = Inl ''bad arguments''
   \<and> construct rt0 1 [] (world s0) = (Inr 1, 1) \<and> call_default rt0 1 1 = (Threw ''boom'', 2)
   \<and> fst (set_app rt0 1 [] s0) = Inl ''boom''
   \<and> modules (app (exec rt0 [Use 2 [], Use 1 [], Use 3 []] s0)) = [2] @ 1 # [3]
   \<and> fst (run_loop rt0 [2] (exec rt0 [Use 2 [], Use 1 [], Use 3 []] s0)) = Inr ()
   \<and> fst (run rt0 (exec rt0 [Use 2 [], Use 1 [], Use 3 []] s0)) = Inl ''boom''"
proof -
  let ?s = "exec rt0 [Use 2 [], Use 1 [], Use 3 []] s0"
  let ?s1 = "snd (run_loop rt0 [2] ?s)"
  have c0: "construct rt0 0 [] (world s0) = (Inl ''bad arguments'', 1)"
    and c1: "construct rt0 1 [] (world s0) = (Inr 1, 1)"
    and d1: "call_default rt0 1 1 = (Threw ''boom'', 2)"
    by (simp_all add: rt0_def s0_def boot_def)
  have ms: "modules (app ?s) = [2] @ 1 # [3]"
    by (simp add: use_def new_instance_def push_modules_def rt0_def s0_def boot_def
          Application_new_def)
  have l: "fst (run_loop rt0 [2] ?s) = Inr ()"
    by (simp add: invoke_def rt0_def)
  then have l': "run_loop rt0 [2] ?s = (Inr (), ?s1)"
    by (metis prod.collapse)
  have d: "call_default rt0 1 (world ?s1) = (Threw ''boom'', Suc (world ?s1))"
    by (simp add: rt0_def)
  from exceptions_propagate [of rt0 0 "[]" s0 "''bad arguments''" 1] c0
  have a: "fst (use rt0 0 [] s0) = Inl ''bad arguments''
      \<and> fst (set_app rt0 0 [] s0) = Inl ''bad arguments''"
    by blast
  from exceptions_propagate [of rt0 1 "[]" s0 "''boom''" 1 1 2] c1 d1
  have b: "fst (set_app rt0 1 [] s0) = Inl ''boom''"
    by blast
  from exceptions_propagate [of rt0 _ _ ?s "''boom''" _ 1 "Suc (world ?s1)" "[2]" "[3]" ?s1]
    ms l' d
  have "fst (run rt0 ?s) = Inl ''boom''"
    by blast
  with a b c0 c1 d1 ms l show ?thesis by blast
qed

text \<open>
  C9. \<open>set\<close> is not atomic. When the constructor returns \<open>m\<close> and the entry point of \<open>m\<close>
  throws \<open>e\<close>, the entry point was invoked in a state where \<open>m\<close> was already the last
  element of \<open>initModules\<close>, the call throws \<open>e\<close>, and \<open>m\<close> is still registered afterwards.
\<close>

theorem set_keeps_registration_on_failure:
  assumes "construct rt k args (world s) = (Inr m, w)"
    and "call_default rt m w = (Threw e, w')"
    and "set_app rt k args s = (r, s')"
  shows "r = Inl e \<and> initModules (app s') = initModules (app s) @ [m]
       \<and> (\<exists>s1. initModules (app s1) = initModules (app s) @ [m] \<and> world s1 = w
              \<and> invoke rt m s1 = (r, s'))"
proof -
  let ?s1 = "push_initModules m (s\<lparr>world := w, trace := trace s @ [New k args]\<rparr>)"
  from assms(1,3) have i: "invoke rt m ?s1 = (r, s')"
    by (simp add: set_app_def new_instance_def)
  have p: "initModules (app ?s1) = initModules (app s) @ [m]" and pw: "world ?s1 = w"
    by (simp_all add: push_initModules_def)
  from i assms(2) pw have r: "r = Inl e"
    by (simp add: invoke_def)
  from invoke_effect(1) [OF i] p have "initModules (app s') = initModules (app s) @ [m]"
    by simp
  with r i p pw show ?thesis by blast
qed

theorem set_keeps_registration_on_failure_witness:
  "construct rt0 1 [] (world s0) = (Inr 1, 1) \<and> call_default rt0 1 1 = (Threw ''boom'', 2)
   \<and> fst (set_app rt0 1 [] s0) = Inl ''boom''
   \<and> initModules (app (snd (set_app rt0 1 [] s0))) = [1]"
proof -
  have c: "construct rt0 1 [] (world s0) = (Inr 1, 1)"
    by (simp add: rt0_def s0_def boot_def)
  have d: "call_default rt0 1 1 = (Threw ''boom'', 2)"
    by (simp add: rt0_def)
  have p: "set_app rt0 1 [] s0 = (fst (set_app rt0 1 [] s0), snd (set_app rt0 1 [] s0))"
    by simp
  from set_keeps_registration_on_failure [OF c d p] c d show ?thesis
    by (simp add: s0_def boot_def Application_new_def)
qed

section \<open>Registration and the module wrapper\<close>

text \<open>
  C7. \<open>use(C, ...args)\<close> constructs its instance as \<open>new Module(C).default(...args)\<close> does.
  Started in the same state, when the wrapper returns the instance \<open>m\<close>, \<open>use\<close> returns
  after the same construction with \<open>m\<close> appended to the regular modules; when the wrapper
  throws \<open>e\<close>, \<open>use\<close> throws \<open>e\<close> and appends nothing.
\<close>

theorem use_as_Module_wrapper:
  "(Module_default rt (Module_new k) args s = (Inr m, s1) \<longrightarrow>
      use rt k args s = (Inr (), push_modules m s1)
      \<and> modules (app (snd (use rt k args s))) = modules (app s) @ [m])
   \<and> (Module_default rt (Module_new k) args s = (Inl e, s1) \<longrightarrow>
      use rt k args s = (Inl e, s1)
      \<and> modules (app (snd (use rt k args s))) = modules (app s))"
  by (auto simp: Module_default_def Module_new_def use_def push_modules_def
        dest: new_instance_effect(1))

theorem use_as_Module_wrapper_witness:
  "fst (Module_default rt0 (Module_new 4) [1] s0) = Inr 5
   \<and> modules (app (snd (use rt0 4 [1] s0))) = [5]
   \<and> fst (Module_default rt0 (Module_new 0) [] s0) = Inl ''bad arguments''
   \<and> fst (use rt0 0 [] s0) = Inl ''bad arguments''
   \<and> modules (app (snd (use rt0 0 [] s0))) = []"
proof -
  let ?s1 = "snd (Module_default rt0 (Module_new 4) [1] s0)"
  let ?s2 = "snd (Module_default rt0 (Module_new 0) [] s0)"
  have r: "fst (Module_default rt0 (Module_new 4) [1] s0) = Inr 5"
    and q: "fst (Module_default rt0 (Module_new 0) [] s0) = Inl ''bad arguments''"
    by (simp_all add: Module_default_def Module_new_def new_instance_def rt0_def s0_def
          boot_def)
  from r have c: "Module_default rt0 (Module_new 4) [1] s0 = (Inr 5, ?s1)"
    by (metis prod.collapse)
  from q have d: "Module_default rt0 (Module_new 0) [] s0 = (Inl ''bad arguments'', ?s2)"
    by (metis prod.collapse)
  have e: "modules (app s0) = []"
    by (simp add: s0_def boot_def Application_new_def)
  from use_as_Module_wrapper [of rt0 4 "[1]" s0 5 ?s1] c
  have "modules (app (snd (use rt0 4 [1] s0))) = modules (app s0) @ [5]"
    by blast
  with e have a: "modules (app (snd (use rt0 4 [1] s0))) = [5]"
    by simp
  from use_as_Module_wrapper [of rt0 0 "[]" s0 _ ?s2 "''bad arguments''"] d
  have "fst (use rt0 0 [] s0) = fst (Inl ''bad arguments'' :: string + unit, ?s2)
      \<and> modules (app (snd (use rt0 0 [] s0))) = modules (app s0)"
    by metis
  with e have b: "fst (use rt0 0 [] s0) = Inl ''bad arguments''"
    and b': "modules (app (snd (use rt0 0 [] s0))) = []"
    by simp_all
  show ?thesis
    by (intro conjI) fact+
qed

section \<open>Process exit\<close>

text \<open>
  The claim C8 as written (for every number \<open>code\<close>, \<open>exit(code)\<close> ends the process with
  exit status \<open>code\<close>) fails: an exit status has eight bits, so the code 256 gives the
  status 0 and the code -1 gives 255; for 9007199254740992 and for 3/2 the host throws instead of
  ending the process; and for \<^verbatim>\<open>NaN\<close>, which is falsy, \<open>exit\<close> asks for the status 0.
\<close>

theorem exit_status_counterexample:
  "exit host_process_exit (Some (Finite 256)) = Exited 0
   \<and> exit host_process_exit (Some (Finite (- 1))) = Exited 255
   \<and> exit host_process_exit (Some (Finite 9007199254740992)) = RangeError
   \<and> exit host_process_exit (Some (Finite (3 / 2))) = RangeError
   \<and> exit host_process_exit (Some NaN) = Exited 0"
proof -
  have "\<lfloor>- 1 :: real\<rfloor> = - 1"
    by (metis floor_of_int of_int_1 of_int_minus)
  then show ?thesis
    by (simp add: exit_def host_process_exit_def)
qed

text \<open>
  C8, amended. Whatever \<^verbatim>\<open>process.exit\<close> does, \<open>exit(code)\<close> calls it with \<open>code\<close> for
  every number other than \<^verbatim>\<open>NaN\<close>, and with \<open>0\<close> for \<^verbatim>\<open>NaN\<close> and when the argument
  is omitted. On the host, \<open>exit()\<close> without an argument ends the process with status \<open>0\<close>;
  \<open>exit(code)\<close> ends it with status \<open>code\<close> when \<open>code\<close> is an integer from 0 to 255, and
  with status \<open>code mod 256\<close> for every integer in the safe range; for a number that is not
  an integer in the safe range (infinities included) the host throws a \<^verbatim>\<open>RangeError\<close> and
  the process does not end.
\<close>

theorem exit_status:
  "exit process_exit None = process_exit (Finite 0)
   \<and> exit process_exit (Some NaN) = process_exit (Finite 0)
   \<and> (code \<noteq> NaN \<longrightarrow> exit process_exit (Some code) = process_exit code)
   \<and> exit host_process_exit None = Exited 0
   \<and> (0 \<le> n \<and> n \<le> 255 \<longrightarrow>
        exit host_process_exit (Some (Finite (of_int n))) = Exited (nat n))
   \<and> (- 9007199254740991 \<le> n \<and> n \<le> 9007199254740991 \<longrightarrow>
        exit host_process_exit (Some (Finite (of_int n))) = Exited (nat (n mod 256)))
   \<and> (x \<noteq> of_int \<lfloor>x\<rfloor> \<or> x < - 9007199254740991 \<or> 9007199254740991 < x \<longrightarrow>
        exit host_process_exit (Some (Finite x)) = RangeError)
   \<and> exit host_process_exit (Some PosInfinity) = RangeError
   \<and> exit host_process_exit (Some NegInfinity) = RangeError"
proof -
  have a: "exit process_exit (Some code) = process_exit code" if "code \<noteq> NaN"
    using that by (cases code) (auto simp: exit_def)
  have r: "(- 9007199254740991 \<le> (of_int n :: real)) = (- 9007199254740991 \<le> n)"
    "((of_int n :: real) \<le> 9007199254740991) = (n \<le> 9007199254740991)" for n :: int
    by linarith+
  have b: "exit host_process_exit (Some (Finite (of_int n))) = Exited (nat (n mod 256))"
    if "- 9007199254740991 \<le> n \<and> n \<le> 9007199254740991"
    using that by (simp add: exit_def host_process_exit_def r)
  have c: "exit host_process_exit (Some (Finite (of_int n))) = Exited (nat n)"
    if "0 \<le> n \<and> n \<le> 255"
  proof -
    from that have "n mod 256 = n" by simp
    with b that show ?thesis by simp
  qed
  have d: "exit host_process_exit (Some (Finite x)) = RangeError"
    if "x \<noteq> of_int \<lfloor>x\<rfloor> \<or> x < - 9007199254740991 \<or> 9007199254740991 < x"
    using that by (auto simp: exit_def host_process_exit_def)
  have e: "exit process_exit None = process_exit (Finite 0)"
    "exit process_exit (Some NaN) = process_exit (Finite 0)"
    "exit host_process_exit None = Exited 0"
    "exit host_process_exit (Some PosInfinity) = RangeError"
    "exit host_process_exit (Some NegInfinity) = RangeError"
    by (simp_all add: exit_def host_process_exit_def)
  from a b c d e show ?thesis by blast
qed

theorem exit_status_witness:
  "Finite 7 \<noteq> NaN
   \<and> exit host_process_exit (Some (Finite 7)) = host_process_exit (Finite 7)
   \<and> exit host_process_exit (Some (Finite 7)) = Exited 7
   \<and> exit host_process_exit (Some (Finite 300)) = Exited 44
   \<and> exit host_process_exit (Some (Finite (1 / 2))) = RangeError"
proof -
  note inst = exit_status [of host_process_exit "Finite 7" 7 "1 / 2"]
  have a: "Finite 7 \<noteq> NaN" by simp
  from inst [THEN conjunct2, THEN conjunct2, THEN conjunct1] a
  have b: "exit host_process_exit (Some (Finite 7)) = host_process_exit (Finite 7)"
    by simp
  from inst [THEN conjunct2, THEN conjunct2, THEN conjunct2, THEN conjunct2, THEN conjunct1]
  have c: "exit host_process_exit (Some (Finite 7)) = Exited 7"
    by simp
  from exit_status [of host_process_exit NaN 300 0, THEN conjunct2, THEN conjunct2,
      THEN conjunct2, THEN conjunct2, THEN conjunct2, THEN conjunct1]
  have d: "exit host_process_exit (Some (Finite 300)) = Exited 44"
    by simp
  have "(1 / 2 :: real) \<noteq> of_int \<lfloor>1 / 2 :: real\<rfloor>"
    by simp
  with inst [THEN conjunct2, THEN conjunct2, THEN conjunct2, THEN conjunct2, THEN conjunct2,
      THEN conjunct2, THEN conjunct1]
  have e: "exit host_process_exit (Some (Finite (1 / 2))) = RangeError"
    by blast
  show ?thesis
    by (intro conjI) fact+
qed

section \<open>Serialization of File documents\<close>

text \<open>
  C4. Serializing a File document, to a plain object or to JSON, gives an object whose
  \<open>id\<close> is the document's identifier and which has no \<open>_id\<close>.
\<close>

theorem File_serialization:
  "toObject d ''id'' = Some (JObjectId (doc_id d)) \<and> toObject d ''_id'' = None
   \<and> toJSON d ''id'' = Some (JObjectId (doc_id d)) \<and> toJSON d ''_id'' = None"
proof -
  have "truthy (get_prop (plain d) ''_id'')"
    by (simp add: plain_id)
  from toPrettyObject_truthy [OF this, of d] show ?thesis
    by (simp add: toObject_def toJSON_def plain_id)
qed

theorem File_serialization_witness:
  "toObject file0 ''id'' = Some (JObjectId ''64b7f0c2a1d3e4f5a6b7c8d9'')
   \<and> toObject file0 ''_id'' = None
   \<and> toJSON file0 ''name'' = Some (JString ''a.txt'')"
proof -
  have "toJSON file0 ''name'' = Some (JString ''a.txt'')"
    by (simp add: toJSON_def toPrettyObject_other plain_def file0_def)
  with File_serialization [of file0] show ?thesis
    by (simp add: file0_def)
qed

section \<open>Routers built by a controller\<close>

text \<open>
  The claim C5 as written (the prefix equals the controller's path whenever the path is set)
  fails for a path set to the empty string: the empty string is falsy, so \<open>build\<close> falls
  back to the root path.
\<close>

theorem build_prefix_counterexample:
  "path ctl0 = Some ''''
   \<and> opts_prefix (snd (build ctl0 []) ! fst (build ctl0 [])) = ''/''
   \<and> Some (opts_prefix (snd (build ctl0 []) ! fst (build ctl0 []))) \<noteq> path ctl0"
  by (simp add: build_def Router_new_def ctl0_def)

text \<open>
  C5, amended. Every call of \<open>build\<close> allocates a router at an address that was not in use
  and leaves the routers already there as they are; two calls on the same controller give two
  different routers with the same prefix. The prefix is the controller's path when the path
  is set to a non-empty string, and the root path \<open>/\<close> when the path is unset or empty.
\<close>

theorem build_new_router:
  assumes "build this h = (r1, h1)" and "build this h1 = (r2, h2)"
  shows "\<not> r1 < length h \<and> r1 < length h1 \<and> \<not> r2 < length h1 \<and> r2 < length h2 \<and> r1 \<noteq> r2
       \<and> take (length h) h2 = h \<and> h2 ! r1 = h1 ! r1
       \<and> opts_prefix (h2 ! r2) = opts_prefix (h2 ! r1)
       \<and> (path this = None \<or> path this = Some [] \<longrightarrow> opts_prefix (h2 ! r1) = ''/'')
       \<and> (\<forall>p. path this = Some p \<and> p \<noteq> [] \<longrightarrow> opts_prefix (h2 ! r1) = p)"
proof -
  define q where "q = (case path this of None \<Rightarrow> ''/'' | Some p \<Rightarrow> if p \<noteq> [] then p else ''/'')"
  from build_effect [OF assms(1)] have r1: "r1 = length h" and h1: "h1 = h @ [\<lparr>opts_prefix = q\<rparr>]"
    by (simp_all add: q_def)
  from build_effect [OF assms(2)] have r2: "r2 = length h1" and h2: "h2 = h1 @ [\<lparr>opts_prefix = q\<rparr>]"
    by (simp_all add: q_def)
  have a: "h2 ! r1 = \<lparr>opts_prefix = q\<rparr>" and b: "h2 ! r2 = \<lparr>opts_prefix = q\<rparr>"
    and c: "h1 ! r1 = \<lparr>opts_prefix = q\<rparr>"
    by (simp_all add: r1 r2 h1 h2 nth_append)
  have d: "take (length h) h2 = h"
    by (simp add: h1 h2)
  have e: "path this = None \<or> path this = Some [] \<longrightarrow> q = ''/''"
    by (auto simp: q_def)
  have f: "\<forall>p. path this = Some p \<and> p \<noteq> [] \<longrightarrow> q = p"
    by (simp add: q_def)
  have g: "\<not> r1 < length h \<and> r1 < length h1 \<and> \<not> r2 < length h1 \<and> r2 < length h2 \<and> r1 \<noteq> r2"
    by (simp add: r1 r2 h1 h2)
  from a b c d e f g show ?thesis
    by simp
qed

theorem build_new_router_witness:
  "build ctl1 [] = (0, [\<lparr>opts_prefix = ''/users''\<rparr>])
   \<and> build ctl1 [\<lparr>opts_prefix = ''/users''\<rparr>]
       = (1, [\<lparr>opts_prefix = ''/users''\<rparr>, \<lparr>opts_prefix = ''/users''\<rparr>])
   \<and> path ctl1 = Some ''/users''
   \<and> opts_prefix ([\<lparr>opts_prefix = ''/users''\<rparr>, \<lparr>opts_prefix = ''/users''\<rparr>] ! 0) = ''/users''
   \<and> path ctl0 = Some []
   \<and> fst (build ctl0 []) \<noteq> fst (build ctl0 (snd (build ctl0 [])))
   \<and> opts_prefix (snd (build ctl0 (snd (build ctl0 []))) ! fst (build ctl0 [])) = ''/''"
proof -
  let ?b1 = "build ctl0 []"
  let ?b2 = "build ctl0 (snd ?b1)"
  have a: "build ctl1 [] = (0, [\<lparr>opts_prefix = ''/users''\<rparr>])"
    and b: "build ctl1 [\<lparr>opts_prefix = ''/users''\<rparr>]
       = (1, [\<lparr>opts_prefix = ''/users''\<rparr>, \<lparr>opts_prefix = ''/users''\<rparr>])"
    and p: "path ctl1 = Some ''/users''" and p0: "path ctl0 = Some []"
    by (simp_all add: build_def Router_new_def ctl1_def ctl0_def)
  have c: "?b1 = (fst ?b1, snd ?b1)" and d: "?b2 = (fst ?b2, snd ?b2)"
    by simp_all
  from build_new_router [OF a b] p
  have e: "opts_prefix ([\<lparr>opts_prefix = ''/users''\<rparr>, \<lparr>opts_prefix = ''/users''\<rparr>] ! 0)
      = ''/users''"
    by simp
  from build_new_router [OF c d] p0
  have f: "fst ?b1 \<noteq> fst ?b2" and g: "opts_prefix (snd ?b2 ! fst ?b1) = ''/''"
    by blast+
  show ?thesis
    by (intro conjI) fact+
qed

end
